theory Spec2Isabelle
  imports Complex_Main "HOL-Library.Sublist"
begin

section \<open>Strings as Python uses them\<close>

text \<open>
  A Python \<^verbatim>\<open>str\<close> is modelled as a \<^typ>\<open>string\<close>, one \<^typ>\<open>char\<close> per character: the
  characters of the model are the code points below 256, and a \<^typ>\<open>char\<close> is its code
  point. Among them \<^verbatim>\<open>str.lower\<close> changes the capital letters only, \<^verbatim>\<open>A\<close>..\<^verbatim>\<open>Z\<close> and
  those from U+00C0 to U+00DE but for the sign U+00D7, each to the code point 32 above.
  The content of a file on disk is a \<^typ>\<open>string\<close> as well, one \<^typ>\<open>char\<close> per byte.
\<close>

definition lower_char :: "char \<Rightarrow> char" where
  "lower_char c =
     (let n = (of_char c :: nat)
      in if (65 \<le> n \<and> n \<le> 90) \<or> (192 \<le> n \<and> n \<le> 222 \<and> n \<noteq> 215)
         then char_of (n + 32) else c)"

definition lower :: "string \<Rightarrow> string" where
  "lower s = map lower_char s"

text \<open>\<^verbatim>\<open>s.startswith(k)\<close>, and \<^verbatim>\<open>k in s\<close> for two strings.\<close>

fun starts_with :: "string \<Rightarrow> string \<Rightarrow> bool" where
  "starts_with [] s = True"
| "starts_with (k # ks) [] = False"
| "starts_with (k # ks) (c # cs) = (k = c \<and> starts_with ks cs)"

fun str_in :: "string \<Rightarrow> string \<Rightarrow> bool" where
  "str_in k [] = (k = [])"
| "str_in k (c # cs) = (starts_with k (c # cs) \<or> str_in k cs)"

text \<open>\<^verbatim>\<open>sep.join(xs)\<close>.\<close>

fun join :: "string \<Rightarrow> string list \<Rightarrow> string" where
  "join sep [] = []"
| "join sep [x] = x"
| "join sep (x # y # ys) = x @ sep @ join sep (y # ys)"

section \<open>endpoints/constants.py\<close>

definition HIGH_RISK_KEYWORDS :: "string list" where
  "HIGH_RISK_KEYWORDS =
     [''delete'', ''drop'', ''rm -rf'', ''truncate'', ''production'', ''destroy'',
      ''wipe'', ''purge'', ''credential'', ''secret'', ''password'']"

definition MEDIUM_RISK_KEYWORDS :: "string list" where
  "MEDIUM_RISK_KEYWORDS =
     [''refactor'', ''migrate'', ''architecture'', ''auth'', ''security'', ''payment'',
      ''deploy'', ''database'', ''schema'', ''api'']"

section \<open>endpoints/quick\_check.py\<close>

text \<open>
  \<^verbatim>\<open>QuickCheckResponse\<close>. The salience literals \<^verbatim>\<open>0.1\<close>, \<^verbatim>\<open>0.6\<close>, \<^verbatim>\<open>0.9\<close> and the
  thresholds \<^verbatim>\<open>0.85\<close>, \<^verbatim>\<open>0.5\<close> are read as the decimal numbers they denote; the code
  only takes maxima of them and compares them.
\<close>

record QuickCheckResponse =
  salience :: real
  should_emerge :: bool
  mode :: string
  emergence_reason :: "string option"
  detected_keywords :: "string list"

text \<open>
  One keyword loop of \<^verbatim>\<open>analyze_prompt\<close>: for each keyword found in the lower-cased
  prompt, raise the salience to \<open>level\<close> and append the keyword to \<open>detected\<close>.
\<close>

fun scan_keywords :: "real \<Rightarrow> string \<Rightarrow> string list \<Rightarrow> real \<times> string list \<Rightarrow> real \<times> string list" where
  "scan_keywords level prompt_lower [] (sal, detected) = (sal, detected)"
| "scan_keywords level prompt_lower (keyword # rest) (sal, detected) =
     (if str_in keyword prompt_lower
      then scan_keywords level prompt_lower rest (max sal level, detected @ [keyword])
      else scan_keywords level prompt_lower rest (sal, detected))"

definition analyze_prompt :: "string \<Rightarrow> QuickCheckResponse" where
  "analyze_prompt prompt =
     (let prompt_lower = lower prompt;
          (sal1, detected1) = scan_keywords 0.9 prompt_lower HIGH_RISK_KEYWORDS (0.1, []);
          (sal, detected) =
            (if sal1 < 0.9
             then scan_keywords 0.6 prompt_lower MEDIUM_RISK_KEYWORDS (sal1, detected1)
             else (sal1, detected1));
          (mode', emerge) =
            (if sal \<ge> 0.85 then (''emerge'', True)
             else if sal \<ge> 0.5 then (''subtle'', False)
             else (''silent'', False));
          reason =
            (if detected \<noteq> [] then Some (''Detected: '' @ join '', '' (take 3 detected))
             else None)
      in \<lparr>salience = sal, should_emerge = emerge, mode = mode',
          emergence_reason = reason, detected_keywords = detected\<rparr>)"

text \<open>
  Modelled from the spec: the risk tier of a result. \<^verbatim>\<open>analyze_prompt\<close> has no tier
  field; the specification derives the tier from the salience by the same thresholds
  that select the mode (\<open>\<ge> 0.85\<close> high, \<open>\<ge> 0.5\<close> medium, otherwise low).
\<close>

datatype RiskTier = High | Medium | Low

definition risk_tier :: "QuickCheckResponse \<Rightarrow> RiskTier" where
  "risk_tier r =
     (if salience r \<ge> 0.85 then High else if salience r \<ge> 0.5 then Medium else Low)"

section \<open>collectors/claude\_watcher.py: the classifiers\<close>

text \<open>
  \<^verbatim>\<open>INTENT_PATTERNS\<close>. A Python dict iterates in insertion order, so the table is an
  association list in the order the source writes it.
\<close>

definition INTENT_PATTERNS :: "(string \<times> string list) list" where
  "INTENT_PATTERNS =
     [(''create'', [''create'', ''add'', ''implement'', ''build'', ''make'', ''generate'', ''write'']),
      (''fix'', [''fix'', ''bug'', ''error'', ''broken'', ''issue'', ''problem'', ''crash'']),
      (''refactor'', [''refactor'', ''clean'', ''reorganize'', ''restructure'', ''improve'']),
      (''understand'', [''explain'', ''what'', ''how'', ''why'', ''understand'', ''help me'']),
      (''delete'', [''delete'', ''remove'', ''drop'', ''destroy'', ''clean up'']),
      (''test'', [''test'', ''verify'', ''check'', ''validate'', ''coverage'']),
      (''deploy'', [''deploy'', ''release'', ''production'', ''publish'', ''ship''])]"

text \<open>The inner loop of \<^verbatim>\<open>detect_intention\<close>: is some keyword of the list in the message?\<close>

fun any_keyword :: "string list \<Rightarrow> string \<Rightarrow> bool" where
  "any_keyword [] message_lower = False"
| "any_keyword (keyword # rest) message_lower =
     (if str_in keyword message_lower then True else any_keyword rest message_lower)"

text \<open>The outer loop: the first entry with a keyword in the message gives the result.\<close>

fun walk_patterns :: "(string \<times> string list) list \<Rightarrow> string \<Rightarrow> string" where
  "walk_patterns [] message_lower = ''unknown''"
| "walk_patterns ((intent, keywords) # rest) message_lower =
     (if any_keyword keywords message_lower then intent else walk_patterns rest message_lower)"

definition detect_intention :: "string \<Rightarrow> string" where
  "detect_intention message = walk_patterns INTENT_PATTERNS (lower message)"

text \<open>
  The intent algorithm in the words of the specification: the tag of the first table
  entry one of whose keywords occurs as a substring of the lower-cased text, and
  \<^verbatim>\<open>unknown\<close> when no entry has one.
\<close>

definition classify_intent_spec :: "string \<Rightarrow> string" where
  "classify_intent_spec text =
     (case find (\<lambda>(tag, kws). list_ex (\<lambda>k. sublist k (lower text)) kws) INTENT_PATTERNS of
        Some (tag, kws) \<Rightarrow> tag
      | None \<Rightarrow> ''unknown'')"

text \<open>
  \<^verbatim>\<open>extract_files_touched\<close> calls \<^verbatim>\<open>re.findall\<close> with two patterns and builds a
  \<^verbatim>\<open>set\<close>. Both are the Python runtime's, not this repository's, so they are
  parameters of the model:
  \<^item> \<open>re_findall pat message\<close> is the list \<^verbatim>\<open>re.findall(pat, message)\<close> returns (the
    strings captured by the one group of the pattern, left to right);
  \<^item> \<open>set_iter xs\<close> is \<^verbatim>\<open>list(set(xs))\<close>: the elements of \<open>xs\<close> without repetition,
    in the iteration order of the set, which the language leaves open.
  The two patterns of the source are
  \<^verbatim>\<open>[\'"`]([^\'"`]+\.[a-zA-Z]{2,4})[\'"`]\<close> (\<open>QuotedPath\<close>) and
  \<^verbatim>\<open>(\S+\.[a-zA-Z]{2,4})\b\<close> (\<open>UnquotedPath\<close>).
\<close>

datatype pattern = QuotedPath | UnquotedPath

datatype json =
    JNull | JBool bool | JNum real | JStr string | JArr "json list"
  | JObj "(string \<times> json) list"

text \<open>
  The exceptions that occur. None of them is an \<^verbatim>\<open>OSError\<close>, which \<^verbatim>\<open>_process_file\<close>
  catches; \<open>OtherException\<close> stands for any further exception that derives from
  \<^verbatim>\<open>Exception\<close> and is not one. \<^verbatim>\<open>TimeoutException\<close> and \<^verbatim>\<open>ConnectError\<close> are those of
  \<^verbatim>\<open>httpx\<close>; \<^verbatim>\<open>CancelledError\<close> is that of \<^verbatim>\<open>asyncio\<close>.
\<close>

datatype py_exc =
    ImportError | TimeoutException | ConnectError | OtherException | AttributeError
  | UnicodeDecodeError | RecursionError | ValueError
  | CancelledError

datatype send_outcome = Responded nat | Raised py_exc

text \<open>
  What a call of \<^verbatim>\<open>json.loads\<close> comes to: the value it returns, the
  \<^verbatim>\<open>JSONDecodeError\<close> it raises on text that is not JSON, or another exception, such
  as the \<^verbatim>\<open>RecursionError\<close> it raises on brackets nested too deep or the plain
  \<^verbatim>\<open>ValueError\<close> on a number of too many digits.
\<close>

datatype loads_result = Loaded json | JSONDecodeError | LoadsRaised py_exc

text \<open>
  The rest of what the watcher takes from outside the repository:
  \<^item> \<open>decode bytes\<close> is the text that reading a file opened with
    \<^verbatim>\<open>encoding="utf-8"\<close> makes of the bytes, \<open>None\<close> when the bytes are not UTF-8 and
    the read raises \<^verbatim>\<open>UnicodeDecodeError\<close>;
  \<^item> \<open>json_loads line\<close> is what \<^verbatim>\<open>json.loads(line)\<close> comes to; a JSON object is the
    association list of its members;
  \<^item> \<open>clock n\<close> is the string \<^verbatim>\<open>datetime.now().isoformat()\<close> returns when \<open>n\<close> effects
    have happened so far;
  \<^item> \<open>net n\<close> is what becomes of the request \<^verbatim>\<open>_send_event\<close> makes at that moment:
    the server responds with a status code, or \<^verbatim>\<open>import httpx\<close> or the call raises.
\<close>

record runtime =
  re_findall :: "pattern \<Rightarrow> string \<Rightarrow> string list"
  set_iter :: "string list \<Rightarrow> string list"
  decode :: "string \<Rightarrow> string option"
  json_loads :: "string \<Rightarrow> loads_result"
  clock :: "nat \<Rightarrow> string"
  net :: "nat \<Rightarrow> send_outcome"

text \<open>What every Python runtime guarantees of \<^verbatim>\<open>list(set(xs))\<close>.\<close>

definition set_semantics :: "(string list \<Rightarrow> string list) \<Rightarrow> bool" where
  "set_semantics enum \<longleftrightarrow> (\<forall>xs. distinct (enum xs) \<and> set (enum xs) = set xs)"

definition patterns :: "pattern list" where
  "patterns = [QuotedPath, UnquotedPath]"

text \<open>The loop \<^verbatim>\<open>for pattern in patterns: files.extend(re.findall(pattern, message))\<close>.\<close>

fun collect_matches :: "runtime \<Rightarrow> pattern list \<Rightarrow> string \<Rightarrow> string list \<Rightarrow> string list" where
  "collect_matches rt [] message files = files"
| "collect_matches rt (pat # rest) message files =
     collect_matches rt rest message (files @ re_findall rt pat message)"

definition path_like :: "string \<Rightarrow> bool" where
  "path_like f \<longleftrightarrow> CHR ''/'' \<in> set f \<or> CHR ''.'' \<in> set f"

definition extract_files_touched :: "runtime \<Rightarrow> string \<Rightarrow> string list" where
  "extract_files_touched rt message =
     (let files = collect_matches rt patterns message []
      in take 10 (set_iter rt (filter path_like files)))"

section \<open>collectors/claude\_watcher.py: the session tracker\<close>

type_synonym path = string

text \<open>The event dictionary built by \<^verbatim>\<open>_process_entry\<close>: these five keys and no other.\<close>

record event =
  event_type :: string
  timestamp :: string
  project :: string
  files_touched :: "string list"
  intention :: string

text \<open>
  The effects of a pass, in the order they happen: the read of a byte range
  (\<^verbatim>\<open>seek\<close>, \<^verbatim>\<open>readlines\<close>), the store into \<^verbatim>\<open>self.positions\<close>, a call of
  \<^verbatim>\<open>json.loads\<close> on a line, an append to \<^verbatim>\<open>self.session_events\<close>, and a call of
  \<^verbatim>\<open>_send_event\<close> with what became of it.
\<close>

datatype action =
    Read path nat nat
  | Commit path nat
  | Parse string
  | Append event
  | Send event send_outcome

text \<open>
  \<^verbatim>\<open>SessionTracker\<close>: its two attributes, and the history of effects so far (oldest
  first), which is not an attribute of the class but of the world it runs in.
\<close>

record tracker =
  positions :: "path \<rightharpoonup> nat"
  session_events :: "event list"
  trace :: "action list"

text \<open>\<^verbatim>\<open>SessionTracker.__init__\<close>, in a world with the given history.\<close>

definition SessionTracker_init :: "action list \<Rightarrow> tracker" where
  "SessionTracker_init history = \<lparr>positions = Map.empty, session_events = [], trace = history\<rparr>"

text \<open>
  A restart of the daemon: \<^verbatim>\<open>run_daemon\<close> constructs a new \<^verbatim>\<open>SessionTracker\<close>; nothing
  of the old one is kept anywhere.
\<close>

definition restart :: "tracker \<Rightarrow> tracker" where
  "restart st = SessionTracker_init (trace st)"

text \<open>\<^verbatim>\<open>self.positions.get(file_path, 0)\<close>.\<close>

definition positions_get :: "tracker \<Rightarrow> path \<Rightarrow> nat" where
  "positions_get st file_path = (case positions st file_path of None \<Rightarrow> 0 | Some n \<Rightarrow> n)"

text \<open>\<^verbatim>\<open>isinstance(e, Exception)\<close>: a cancellation derives from \<^verbatim>\<open>BaseException\<close> only.\<close>

fun is_Exception :: "py_exc \<Rightarrow> bool" where
  "is_Exception CancelledError = False"
| "is_Exception e = True"

text \<open>
  \<^verbatim>\<open>_send_event\<close>: \<^verbatim>\<open>except ImportError\<close>, then \<^verbatim>\<open>except Exception\<close>; a response is
  not looked at, whatever its status.
\<close>

definition send_event :: "runtime \<Rightarrow> event \<Rightarrow> tracker \<Rightarrow> py_exc option \<times> tracker" where
  "send_event rt ev st =
     (let outcome = net rt (length (trace st));
          st' = st\<lparr>trace := trace st @ [Send ev outcome]\<rparr>
      in case outcome of
           Responded status \<Rightarrow> (None, st')
         | Raised e \<Rightarrow>
             if e = ImportError then (None, st')
             else if is_Exception e then (None, st')
             else (Some e, st'))"

text \<open>\<^verbatim>\<open>d.get(key, default)\<close> on the members of a JSON object, and Python's truth value.\<close>

definition dict_get :: "(string \<times> json) list \<Rightarrow> string \<Rightarrow> json \<Rightarrow> json" where
  "dict_get members key dflt = (case map_of members key of None \<Rightarrow> dflt | Some v \<Rightarrow> v)"

fun truthy :: "json \<Rightarrow> bool" where
  "truthy JNull = False"
| "truthy (JBool b) = b"
| "truthy (JNum x) = (x \<noteq> 0)"
| "truthy (JStr s) = (s \<noteq> [])"
| "truthy (JArr xs) = (xs \<noteq> [])"
| "truthy (JObj members) = (members \<noteq> [])"

text \<open>
  \<^verbatim>\<open>_process_entry\<close>. \<^verbatim>\<open>entry.get\<close> exists on a dict only and \<^verbatim>\<open>content.lower()\<close> on a
  string only: on anything else Python raises \<^verbatim>\<open>AttributeError\<close>.
\<close>

definition process_entry :: "runtime \<Rightarrow> json \<Rightarrow> string \<Rightarrow> tracker \<Rightarrow> py_exc option \<times> tracker" where
  "process_entry rt entry proj st =
     (case entry of
        JObj members \<Rightarrow>
          (let role = dict_get members ''role'' (JStr []) in
           if role \<noteq> JStr ''user'' then (None, st)
           else
             let content = dict_get members ''content'' (JStr []) in
             if \<not> truthy content then (None, st)
             else
               (case content of
                  JStr body \<Rightarrow>
                    (let intention' = detect_intention body;
                         files = extract_files_touched rt body;
                         ev = \<lparr>event_type = intention',
                               timestamp = clock rt (length (trace st)),
                               project = proj,
                               files_touched = files,
                               intention = intention'\<rparr>;
                         st1 = st\<lparr>session_events := session_events st @ [ev],
                                  trace := trace st @ [Append ev]\<rparr>
                     in send_event rt ev st1)
                | _ \<Rightarrow> (Some AttributeError, st)))
      | _ \<Rightarrow> (Some AttributeError, st))"

text \<open>
  \<^verbatim>\<open>str.isspace\<close> on the characters of the model (U+0009 to U+000D, U+001C to U+0020,
  U+0085 and U+00A0), and \<^verbatim>\<open>str.strip()\<close>.
\<close>

definition is_space :: "char \<Rightarrow> bool" where
  "is_space c =
     (let n = (of_char c :: nat)
      in (9 \<le> n \<and> n \<le> 13) \<or> (28 \<le> n \<and> n \<le> 32) \<or> n = 133 \<or> n = 160)"

definition strip :: "string \<Rightarrow> string" where
  "strip s = rev (dropWhile is_space (rev (dropWhile is_space s)))"

text \<open>
  \<^verbatim>\<open>f.readlines()\<close> of a file opened in text mode: every line keeps its terminator,
  and \<^verbatim>\<open>\r\n\<close> and \<^verbatim>\<open>\r\<close> are read as \<^verbatim>\<open>\n\<close>. \<open>cur\<close> holds the line being read.
\<close>

fun split_lines :: "string \<Rightarrow> string \<Rightarrow> string list" where
  "split_lines cur [] = (if cur = [] then [] else [cur])"
| "split_lines cur [c] =
     (if c = CHR 0x0A \<or> c = CHR 0x0D then [cur @ [CHR 0x0A]] else [cur @ [c]])"
| "split_lines cur (c # d # ds) =
     (if c = CHR 0x0A then (cur @ [CHR 0x0A]) # split_lines [] (d # ds)
      else if c = CHR 0x0D then
        (if d = CHR 0x0A then (cur @ [CHR 0x0A]) # split_lines [] ds
         else (cur @ [CHR 0x0A]) # split_lines [] (d # ds))
      else split_lines (cur @ [c]) (d # ds))"

definition readlines :: "string \<Rightarrow> string list" where
  "readlines s = split_lines [] s"

text \<open>
  The loop over \<^verbatim>\<open>new_lines\<close> in \<^verbatim>\<open>_process_file\<close>. A \<^verbatim>\<open>JSONDecodeError\<close> goes on to
  the next line; any other exception, of \<^verbatim>\<open>json.loads\<close> or of \<^verbatim>\<open>_process_entry\<close>, leaves
  the loop and the function.
\<close>

fun process_lines :: "runtime \<Rightarrow> string list \<Rightarrow> string \<Rightarrow> tracker \<Rightarrow> py_exc option \<times> tracker" where
  "process_lines rt [] proj st = (None, st)"
| "process_lines rt (raw # rest) proj st =
     (let line = strip raw in
      if line = [] then process_lines rt rest proj st
      else
        let st1 = st\<lparr>trace := trace st @ [Parse line]\<rparr> in
        case json_loads rt line of
          JSONDecodeError \<Rightarrow> process_lines rt rest proj st1
        | LoadsRaised e \<Rightarrow> (Some e, st1)
        | Loaded entry \<Rightarrow>
            (case process_entry rt entry proj st1 of
               (None, st2) \<Rightarrow> process_lines rt rest proj st2
             | (Some e, st2) \<Rightarrow> (Some e, st2)))"

text \<open>
  \<^verbatim>\<open>_process_file\<close>. The file is what is on disk during the pass: \<open>None\<close> when
  \<^verbatim>\<open>stat\<close> or \<^verbatim>\<open>open\<close> raises \<^verbatim>\<open>OSError\<close> (caught and logged), else its bytes, whose
  number is both \<^verbatim>\<open>st_size\<close> and the \<^verbatim>\<open>f.tell()\<close> after \<^verbatim>\<open>readlines\<close>.
  \<^verbatim>\<open>f.readlines()\<close> decodes the bytes from \<^verbatim>\<open>current_pos\<close> to the end; when they are not
  UTF-8 it raises \<^verbatim>\<open>UnicodeDecodeError\<close>, which is a \<^verbatim>\<open>ValueError\<close> and not an
  \<^verbatim>\<open>OSError\<close>: the exception leaves the function before the checkpoint is stored.
\<close>

definition process_file :: "runtime \<Rightarrow> path \<Rightarrow> string \<Rightarrow> string option \<Rightarrow> tracker \<Rightarrow> py_exc option \<times> tracker" where
  "process_file rt file_path proj file st =
     (let current_pos = positions_get st file_path in
      case file of
        None \<Rightarrow> (None, st)
      | Some content \<Rightarrow>
          (let file_size = length content in
           if file_size \<le> current_pos then (None, st)
           else
             (case decode rt (drop current_pos content) of
                None \<Rightarrow> (Some UnicodeDecodeError, st)
              | Some unseen \<Rightarrow>
                  (let new_lines = readlines unseen;
                       st1 = st\<lparr>trace := trace st @ [Read file_path current_pos file_size]\<rparr>;
                       st2 = st1\<lparr>positions := (positions st1)(file_path \<mapsto> file_size),
                                 trace := trace st1 @ [Commit file_path file_size]\<rparr>
                   in process_lines rt new_lines proj st2))))"


text \<open>The byte ranges read from, and the offsets stored for, one path in a history.\<close>

fun reads_of :: "path \<Rightarrow> action list \<Rightarrow> (nat \<times> nat) list" where
  "reads_of p [] = []"
| "reads_of p (Read q a b # rest) = (if q = p then (a, b) # reads_of p rest else reads_of p rest)"
| "reads_of p (other # rest) = reads_of p rest"

fun commits_of :: "path \<Rightarrow> action list \<Rightarrow> nat list" where
  "commits_of p [] = []"
| "commits_of p (Commit q n # rest) = (if q = p then n # commits_of p rest else commits_of p rest)"
| "commits_of p (other # rest) = commits_of p rest"


text \<open>The effects that a call added to the history.\<close>

definition new_actions :: "tracker \<Rightarrow> tracker \<Rightarrow> action list" where
  "new_actions st st' = drop (length (trace st)) (trace st')"

text \<open>Reads and stores of offsets, as against the effects of handling a record.\<close>

fun is_io :: "action \<Rightarrow> bool" where
  "is_io (Read p a b) = True"
| "is_io (Commit p n) = True"
| "is_io other = False"

text \<open>The events appended to \<^verbatim>\<open>session_events\<close> and those handed to \<^verbatim>\<open>_send_event\<close>.\<close>

fun appends_of :: "action list \<Rightarrow> event list" where
  "appends_of [] = []"
| "appends_of (Append ev # rest) = ev # appends_of rest"
| "appends_of (other # rest) = appends_of rest"

fun sends_of :: "action list \<Rightarrow> event list" where
  "sends_of [] = []"
| "sends_of (Send ev outcome # rest) = ev # sends_of rest"
| "sends_of (other # rest) = sends_of rest"

text \<open>A history with what became of each request forgotten.\<close>

fun erase :: "action \<Rightarrow> action" where
  "erase (Send ev outcome) = Send ev (Responded 200)"
| "erase other = other"

text \<open>
  The outcomes of a request that are a response of any status, a missing
  \<^verbatim>\<open>httpx\<close>, or an exception derived from \<^verbatim>\<open>Exception\<close> (time-outs and connection errors
  among them): all but the cancellation of the task itself.
\<close>

definition dispatch_outcome :: "send_outcome \<Rightarrow> bool" where
  "dispatch_outcome outcome = (case outcome of Responded status \<Rightarrow> True | Raised e \<Rightarrow> is_Exception e)"

text \<open>
  The kinds of raw line the end-to-end scenario speaks of: a valid record of a user
  (a JSON object whose role is \<^verbatim>\<open>user\<close> and whose content is a non-empty string), and
  a malformed line (not blank, and \<^verbatim>\<open>json.loads\<close> raises \<^verbatim>\<open>JSONDecodeError\<close> on it).
\<close>

definition user_record :: "runtime \<Rightarrow> string \<Rightarrow> bool" where
  "user_record rt raw \<longleftrightarrow>
     strip raw \<noteq> [] \<and>
     (case json_loads rt (strip raw) of
        Loaded (JObj members) \<Rightarrow>
          dict_get members ''role'' (JStr []) = JStr ''user'' \<and>
          (case dict_get members ''content'' (JStr []) of JStr body \<Rightarrow> body \<noteq> [] | _ \<Rightarrow> False)
      | _ \<Rightarrow> False)"

definition malformed :: "runtime \<Rightarrow> string \<Rightarrow> bool" where
  "malformed rt raw \<longleftrightarrow> strip raw \<noteq> [] \<and> json_loads rt (strip raw) = JSONDecodeError"

section \<open>A runtime for the examples\<close>

text \<open>
  The examples run the model in one runtime. Its \<^verbatim>\<open>json.loads\<close> and \<^verbatim>\<open>re.findall\<close> are
  tabulated on the lines and messages the examples use, with the values Python gives
  there; its sets iterate in insertion order; its requests time out and are answered
  with status 500 in turn. Its decoder is UTF-8 onto the characters of the model: a
  byte below 128 is its character, and the bytes \<open>0xC2\<close> and \<open>0xC3\<close> with a
  continuation byte are the characters from U+0080 to U+00FF. It refuses any other
  byte string: rightly where the bytes are not UTF-8 (the byte \<open>0xFF\<close> of the examples
  is never), while text with characters beyond U+00FF is outside the model.
\<close>

fun demo_decode :: "string \<Rightarrow> string option" where
  "demo_decode [] = Some []"
| "demo_decode [b] = (if (of_char b :: nat) < 128 then Some [b] else None)"
| "demo_decode (b # c # cs) =
     (let n = (of_char b :: nat); m = (of_char c :: nat)
      in if n < 128 then map_option ((#) b) (demo_decode (c # cs))
         else if (n = 194 \<or> n = 195) \<and> 128 \<le> m \<and> m < 192
         then map_option ((#) (char_of ((n - 192) * 64 + (m - 128)))) (demo_decode cs)
         else None)"

text \<open>
  A line of 100000 opening brackets: \<^verbatim>\<open>json.loads\<close> raises \<^verbatim>\<open>RecursionError\<close> on it, and
  on any longer line of them.
\<close>

definition deep_line :: string where
  "deep_line = replicate 100000 (CHR ''['')"

definition user_line_1 :: string where
  \<open>user_line_1 = ''{"role": "user", "content": "fix a.py b.py"}''\<close>

definition user_line_2 :: string where
  \<open>user_line_2 = ''{"role": "user", "content": "please fix a.py  b.py"}''\<close>

definition assistant_line :: string where
  \<open>assistant_line = ''{"role": "assistant", "content": "done"}''\<close>

definition demo_loads :: "string \<Rightarrow> loads_result" where
  "demo_loads line =
     (if line = user_line_1 then
        Loaded (JObj [(''role'', JStr ''user''), (''content'', JStr ''fix a.py b.py'')])
      else if line = user_line_2 then
        Loaded (JObj [(''role'', JStr ''user''), (''content'', JStr ''please fix a.py  b.py'')])
      else if line = assistant_line then
        Loaded (JObj [(''role'', JStr ''assistant''), (''content'', JStr ''done'')])
      else if line = ''[]'' then Loaded (JArr [])
      else if list_all (\<lambda>c. c = CHR ''['') line then
        (if 100000 \<le> length line then LoadsRaised RecursionError else JSONDecodeError)
      else JSONDecodeError)"

definition twelve_files :: string where
  "twelve_files =
     ''f0.py f1.py f2.py f3.py f4.py f5.py f6.py f7.py f8.py f9.py f10.py f11.py''"

definition demo_findall :: "pattern \<Rightarrow> string \<Rightarrow> string list" where
  "demo_findall pat message =
     (if pat = QuotedPath then []
      else if message = ''fix a.py b.py'' \<or> message = ''please fix a.py  b.py'' then
        [''a.py'', ''b.py'']
      else if message = ''Edit main.py and then main.py again'' then [''main.py'', ''main.py'']
      else if message = twelve_files then
        [''f0.py'', ''f1.py'', ''f2.py'', ''f3.py'', ''f4.py'', ''f5.py'', ''f6.py'', ''f7.py'',
         ''f8.py'', ''f9.py'', ''f10.py'', ''f11.py'']
      else [])"

definition demo_rt :: runtime where
  "demo_rt =
     \<lparr>re_findall = demo_findall,
      set_iter = remdups,
      decode = demo_decode,
      json_loads = demo_loads,
      clock = (\<lambda>n. ''2026-01-01T00:00:'' @ replicate n (CHR ''0'')),
      net = (\<lambda>n. if even n then Raised TimeoutException else Responded 500)\<rparr>"

text \<open>A log of three user records, a malformed line and one more user record.\<close>

definition five_line_log :: string where
  "five_line_log =
     user_line_1 @ ''\<newline>'' @ user_line_2 @ ''\<newline>'' @ user_line_1 @ ''\<newline>''
       @ ''{oops'' @ ''\<newline>'' @ user_line_2 @ ''\<newline>''"

text \<open>
  The same log with the line of brackets for its malformed line, and a log whose first
  byte is no UTF-8.
\<close>

definition deep_log :: string where
  "deep_log =
     user_line_1 @ ''\<newline>'' @ user_line_2 @ ''\<newline>'' @ user_line_1 @ ''\<newline>''
       @ deep_line @ ''\<newline>'' @ user_line_2 @ ''\<newline>''"

definition undecodable_log :: string where
  "undecodable_log = CHR 0xFF # ''\<newline>'' @ user_line_1 @ ''\<newline>''"

text \<open>A log of one user record and a line that is JSON but not an object.\<close>

definition crashing_log :: string where
  "crashing_log = user_line_1 @ ''\<newline>'' @ ''[]'' @ ''\<newline>''"

text \<open>
  A step that stores no offset and reads no file: it leaves \<^verbatim>\<open>positions\<close> alone and
  adds to the history only effects of handling records.
\<close>

definition quiet_step :: "tracker \<Rightarrow> tracker \<Rightarrow> bool" where
  "quiet_step st st' \<longleftrightarrow>
     positions st' = positions st \<and>
     (\<exists>new. trace st' = trace st @ new \<and> list_all (\<lambda>a. \<not> is_io a) new)"

text \<open>
  Two trackers that differ at most in what became of the requests sent: the same
  checkpoints, the same events, and the same effects in the same order.
\<close>

definition same_but_outcomes :: "tracker \<Rightarrow> tracker \<Rightarrow> bool" where
  "same_but_outcomes s t \<longleftrightarrow>
     positions s = positions t \<and> session_events s = session_events t \<and>
     map erase (trace s) = map erase (trace t)"

text \<open>
  A step in which every event appended to \<^verbatim>\<open>session_events\<close> is handed to
  \<^verbatim>\<open>_send_event\<close> once, in the same order, and nothing else is appended or sent.
\<close>

definition paired_step :: "tracker \<Rightarrow> tracker \<Rightarrow> bool" where
  "paired_step st st' \<longleftrightarrow>
     (\<exists>N. trace st' = trace st @ N \<and> sends_of N = appends_of N
          \<and> session_events st' = session_events st @ appends_of N)"

section \<open>Substring lemmas\<close>

lemma starts_with_iff: "starts_with k s \<longleftrightarrow> prefix k s"
  by (induction k s rule: starts_with.induct) auto

lemma str_in_iff_sublist: "str_in k s \<longleftrightarrow> sublist k s"
  by (induction s) (auto simp: starts_with_iff sublist_Cons_right)

lemma str_in_iff: "str_in k s \<longleftrightarrow> (\<exists>a b. s = a @ k @ b)"
  by (simp add: str_in_iff_sublist sublist_def)

section \<open>The keyword loops\<close>

lemma scan_keywords_eq:
  "scan_keywords level t ks (sal, det) =
     (if list_ex (\<lambda>k. str_in k t) ks then max sal level else sal,
      det @ filter (\<lambda>k. str_in k t) ks)"
  by (induction ks arbitrary: sal det) (auto simp: max.assoc)

lemma list_ex_filter: "list_ex P ks \<longleftrightarrow> filter P ks \<noteq> []"
  by (induction ks) auto

lemma analyze_prompt_eq:
  "analyze_prompt prompt =
     (let hi = filter (\<lambda>k. str_in k (lower prompt)) HIGH_RISK_KEYWORDS;
          med = filter (\<lambda>k. str_in k (lower prompt)) MEDIUM_RISK_KEYWORDS
      in if hi \<noteq> [] then
           \<lparr>salience = 0.9, should_emerge = True, mode = ''emerge'',
            emergence_reason = Some (''Detected: '' @ join '', '' (take 3 hi)),
            detected_keywords = hi\<rparr>
         else if med \<noteq> [] then
           \<lparr>salience = 0.6, should_emerge = False, mode = ''subtle'',
            emergence_reason = Some (''Detected: '' @ join '', '' (take 3 med)),
            detected_keywords = med\<rparr>
         else
           \<lparr>salience = 0.1, should_emerge = False, mode = ''silent'',
            emergence_reason = None, detected_keywords = []\<rparr>)"
  by (simp add: analyze_prompt_def scan_keywords_eq list_ex_filter Let_def)

section \<open>The risk classifier\<close>

text \<open>
  Claim C2. Whenever a high-risk keyword occurs as a substring of the lower-cased
  prompt, \<^verbatim>\<open>analyze_prompt\<close> returns salience 0.9 (so at least 0.85), tier high, mode
  \<^verbatim>\<open>emerge\<close> and \<^verbatim>\<open>should_emerge\<close> true, whatever medium-risk keywords occur as well;
  and \<^verbatim>\<open>detected_keywords\<close> is the list of all the high-risk keywords that occur, in the
  order of the table, the one assumed among them.
\<close>

theorem analyze_prompt_high_risk:
  assumes "k \<in> set HIGH_RISK_KEYWORDS" and "str_in k (lower prompt)"
  shows "salience (analyze_prompt prompt) = 0.9
       \<and> salience (analyze_prompt prompt) \<ge> 0.85
       \<and> risk_tier (analyze_prompt prompt) = High
       \<and> mode (analyze_prompt prompt) = ''emerge''
       \<and> should_emerge (analyze_prompt prompt)
       \<and> detected_keywords (analyze_prompt prompt) =
           filter (\<lambda>h. str_in h (lower prompt)) HIGH_RISK_KEYWORDS
       \<and> k \<in> set (detected_keywords (analyze_prompt prompt))"
proof -
  from assms have "k \<in> set (filter (\<lambda>h. str_in h (lower prompt)) HIGH_RISK_KEYWORDS)"
    by simp
  then have ne: "filter (\<lambda>h. str_in h (lower prompt)) HIGH_RISK_KEYWORDS \<noteq> []"
    by fastforce
  show ?thesis using ne assms
    by (simp add: analyze_prompt_eq risk_tier_def Let_def)
qed

theorem analyze_prompt_high_risk_witness:
  "''drop'' \<in> set HIGH_RISK_KEYWORDS
   \<and> str_in ''drop'' (lower ''Deploy the API, then DROP the schema and Purge it'')
   \<and> str_in ''deploy'' (lower ''Deploy the API, then DROP the schema and Purge it'')
   \<and> salience (analyze_prompt ''Deploy the API, then DROP the schema and Purge it'') = 0.9
   \<and> mode (analyze_prompt ''Deploy the API, then DROP the schema and Purge it'') = ''emerge''
   \<and> should_emerge (analyze_prompt ''Deploy the API, then DROP the schema and Purge it'')
   \<and> detected_keywords (analyze_prompt ''Deploy the API, then DROP the schema and Purge it'')
       = [''drop'', ''purge'']"
proof -
  have low: "lower ''Deploy the API, then DROP the schema and Purge it''
               = ''deploy the api, then drop the schema and purge it''"
    by code_simp
  have h1: "''drop'' \<in> set HIGH_RISK_KEYWORDS"
    by (simp add: HIGH_RISK_KEYWORDS_def)
  have h2: "str_in ''drop'' (lower ''Deploy the API, then DROP the schema and Purge it'')"
    unfolding low by simp
  have h3: "str_in ''deploy'' (lower ''Deploy the API, then DROP the schema and Purge it'')"
    unfolding low by simp
  have d: "filter (\<lambda>h. str_in h (lower ''Deploy the API, then DROP the schema and Purge it''))
             HIGH_RISK_KEYWORDS = [''drop'', ''purge'']"
    unfolding low HIGH_RISK_KEYWORDS_def by simp
  show ?thesis
    using analyze_prompt_high_risk [OF h1 h2] h1 h2 h3 d by simp
qed

text \<open>
  Claim C10. For every prompt the salience is one of 0.1, 0.6 and 0.9;
  \<^verbatim>\<open>should_emerge\<close> holds exactly when the mode is \<^verbatim>\<open>emerge\<close>, which is exactly when
  the salience is 0.9; and \<^verbatim>\<open>emergence_reason\<close> is absent exactly when
  \<^verbatim>\<open>detected_keywords\<close> is empty.
\<close>

theorem analyze_prompt_invariants:
  "salience (analyze_prompt prompt) \<in> {0.1, 0.6, 0.9}
   \<and> (should_emerge (analyze_prompt prompt) \<longleftrightarrow> mode (analyze_prompt prompt) = ''emerge'')
   \<and> (mode (analyze_prompt prompt) = ''emerge'' \<longleftrightarrow> salience (analyze_prompt prompt) = 0.9)
   \<and> (emergence_reason (analyze_prompt prompt) = None \<longleftrightarrow> detected_keywords (analyze_prompt prompt) = [])"
  by (simp add: analyze_prompt_eq Let_def)

section \<open>The intent classifier\<close>

lemma any_keyword_iff: "any_keyword kws t \<longleftrightarrow> list_ex (\<lambda>k. sublist k t) kws"
  by (induction kws) (auto simp: str_in_iff_sublist)

lemma walk_patterns_find:
  "walk_patterns tbl t =
     (case find (\<lambda>(tag, kws). list_ex (\<lambda>k. sublist k t) kws) tbl of
        Some (tag, kws) \<Rightarrow> tag | None \<Rightarrow> ''unknown'')"
  by (induction tbl t rule: walk_patterns.induct) (auto simp: any_keyword_iff)

lemma walk_patterns_unknown:
  "''unknown'' \<notin> fst ` set tbl \<Longrightarrow>
   walk_patterns tbl t = ''unknown'' \<longleftrightarrow>
     \<not> list_ex (\<lambda>(tag, kws). list_ex (\<lambda>k. sublist k t) kws) tbl"
  by (induction tbl t rule: walk_patterns.induct) (auto simp: any_keyword_iff)

lemma walk_patterns_range:
  "walk_patterns tbl t \<in> insert ''unknown'' (fst ` set tbl)"
  by (induction tbl t rule: walk_patterns.induct) auto

text \<open>
  Claim C7. \<^verbatim>\<open>detect_intention\<close> lower-cases the text and returns the tag of the first
  entry of the table, in table order, one of whose keywords is a substring of it: it
  agrees with the algorithm as the specification words it. Its result is always one of
  the seven tags or \<^verbatim>\<open>unknown\<close>, and \<^verbatim>\<open>unknown\<close> exactly when no keyword of any entry
  occurs. Being a function of the text alone, it gives equal tags on equal texts.
\<close>

theorem detect_intention_first_match:
  "detect_intention text = classify_intent_spec text
   \<and> detect_intention text \<in>
       {''create'', ''fix'', ''refactor'', ''understand'', ''delete'', ''test'', ''deploy'', ''unknown''}
   \<and> (detect_intention text = ''unknown'' \<longleftrightarrow>
        \<not> list_ex (\<lambda>(tag, kws). list_ex (\<lambda>k. sublist k (lower text)) kws) INTENT_PATTERNS)"
proof -
  have a: "detect_intention text = classify_intent_spec text"
    by (simp add: detect_intention_def classify_intent_spec_def walk_patterns_find)
  have "detect_intention text \<in> insert ''unknown'' (fst ` set INTENT_PATTERNS)"
    unfolding detect_intention_def by (rule walk_patterns_range)
  then have b: "detect_intention text \<in>
       {''create'', ''fix'', ''refactor'', ''understand'', ''delete'', ''test'', ''deploy'', ''unknown''}"
    by (auto simp: INTENT_PATTERNS_def)
  have "''unknown'' \<notin> fst ` set INTENT_PATTERNS"
    by (simp add: INTENT_PATTERNS_def)
  then have c: "detect_intention text = ''unknown'' \<longleftrightarrow>
        \<not> list_ex (\<lambda>(tag, kws). list_ex (\<lambda>k. sublist k (lower text)) kws) INTENT_PATTERNS"
    unfolding detect_intention_def by (rule walk_patterns_unknown)
  from a b c show ?thesis by blast
qed

theorem detect_intention_first_match_witness:
  "detect_intention ''Clean up the code'' = ''refactor''
   \<and> classify_intent_spec ''Clean up the code'' = ''refactor''
   \<and> list_ex (\<lambda>(tag, kws). list_ex (\<lambda>k. sublist k (lower ''Clean up the code'')) kws) INTENT_PATTERNS"
proof -
  have d: "detect_intention ''Clean up the code'' = ''refactor''"
    by code_simp
  show ?thesis
    using detect_intention_first_match [of "''Clean up the code''"] d by simp
qed

section \<open>What a pass does to the tracker\<close>

lemma quiet_step_refl: "quiet_step st st"
  by (simp add: quiet_step_def)

lemma quiet_step_trans: "quiet_step a b \<Longrightarrow> quiet_step b c \<Longrightarrow> quiet_step a c"
  by (auto simp: quiet_step_def)

lemma quiet_step_parse: "quiet_step (st\<lparr>trace := trace st @ [Parse line]\<rparr>) st' \<Longrightarrow> quiet_step st st'"
  by (auto simp: quiet_step_def)

lemma send_event_result:
  "send_event rt ev st = (r, st') \<Longrightarrow>
     st' = st\<lparr>trace := trace st @ [Send ev (net rt (length (trace st)))]\<rparr>"
  by (auto simp: send_event_def Let_def split: send_outcome.splits if_splits)

lemma send_event_quiet: "send_event rt ev st = (r, st') \<Longrightarrow> quiet_step st st'"
  by (drule send_event_result) (simp add: quiet_step_def)

lemma process_entry_quiet: "process_entry rt entry proj st = (r, st') \<Longrightarrow> quiet_step st st'"
  by (auto simp: process_entry_def Let_def quiet_step_refl
           split: json.splits if_splits dest!: send_event_result)
     (auto simp: quiet_step_def)

lemma process_lines_quiet: "process_lines rt ls proj st = (r, st') \<Longrightarrow> quiet_step st st'"
proof (induction ls arbitrary: st)
  case Nil
  then show ?case by (simp add: quiet_step_refl)
next
  case (Cons raw rest)
  show ?case
  proof (cases "strip raw = []")
    case True
    with Cons show ?thesis by simp
  next
    case False
    let ?st1 = "st\<lparr>trace := trace st @ [Parse (strip raw)]\<rparr>"
    show ?thesis
    proof (cases "json_loads rt (strip raw)")
      case JSONDecodeError
      with False Cons.prems have "process_lines rt rest proj ?st1 = (r, st')"
        by (simp add: Let_def)
      then have "quiet_step ?st1 st'" by (rule Cons.IH)
      then show ?thesis by (rule quiet_step_parse)
    next
      case (LoadsRaised e)
      with False Cons.prems have "st' = ?st1" by (simp add: Let_def)
      then show ?thesis by (simp add: quiet_step_def)
    next
      case (Loaded entry)
      obtain r2 st2 where pe: "process_entry rt entry proj ?st1 = (r2, st2)"
        by (cases "process_entry rt entry proj ?st1")
      have q12: "quiet_step ?st1 st2" using pe by (rule process_entry_quiet)
      show ?thesis
      proof (cases r2)
        case None
        with False Loaded pe Cons.prems have "process_lines rt rest proj st2 = (r, st')"
          by (simp add: Let_def)
        then have "quiet_step st2 st'" by (rule Cons.IH)
        with q12 have "quiet_step ?st1 st'" by (rule quiet_step_trans)
        then show ?thesis by (rule quiet_step_parse)
      next
        case (Some e)
        with False Loaded pe Cons.prems have "st' = st2"
          by (simp add: Let_def)
        with q12 show ?thesis by (auto intro: quiet_step_parse)
      qed
    qed
  qed
qed

lemma process_file_skip:
  "length content \<le> positions_get st p \<Longrightarrow> process_file rt p proj (Some content) st = (None, st)"
  by (simp add: process_file_def)

lemma process_file_undecodable:
  "positions_get st p < length content \<Longrightarrow>
   decode rt (drop (positions_get st p) content) = None \<Longrightarrow>
     process_file rt p proj (Some content) st = (Some UnicodeDecodeError, st)"
  by (simp add: process_file_def)

lemma process_file_read:
  assumes "positions_get st p < length content"
    and "decode rt (drop (positions_get st p) content) = Some unseen"
    and "process_file rt p proj (Some content) st = (r, st')"
  shows "positions st' = (positions st)(p \<mapsto> length content)
       \<and> (\<exists>rest. trace st' = trace st @ Read p (positions_get st p) (length content)
                        # Commit p (length content) # rest
                 \<and> list_all (\<lambda>a. \<not> is_io a) rest)"
proof -
  let ?st2 = "st\<lparr>positions := (positions st)(p \<mapsto> length content),
               trace := trace st @ [Read p (positions_get st p) (length content),
                                    Commit p (length content)]\<rparr>"
  from assms have "process_lines rt (readlines unseen) proj ?st2 = (r, st')"
    by (simp add: process_file_def Let_def)
  then have "quiet_step ?st2 st'" by (rule process_lines_quiet)
  then show ?thesis by (auto simp: quiet_step_def)
qed

section \<open>File paths\<close>

lemma set_semantics_remdups: "set_semantics remdups"
  by (simp add: set_semantics_def)

lemma collect_matches_eq:
  "collect_matches rt pats m files = files @ concat (map (\<lambda>p. re_findall rt p m) pats)"
  by (induction pats arbitrary: files) auto

text \<open>
  Claim C9. For every message \<^verbatim>\<open>extract_files_touched\<close> returns at most 10 entries, no
  two of them equal. Every entry is a match of one of the two patterns; all the matches
  are there when there are at most 10 different ones. Nothing is said of the order,
  which is that of the iteration of a set.
\<close>

theorem extract_files_touched_capped:
  assumes "set_semantics (set_iter rt)"
  shows "length (extract_files_touched rt message) \<le> 10
       \<and> distinct (extract_files_touched rt message)
       \<and> set (extract_files_touched rt message)
           \<subseteq> {f \<in> set (re_findall rt QuotedPath message) \<union> set (re_findall rt UnquotedPath message).
                path_like f}
       \<and> (card {f \<in> set (re_findall rt QuotedPath message) \<union> set (re_findall rt UnquotedPath message).
                path_like f} \<le> 10 \<longrightarrow>
          set (extract_files_touched rt message)
            = {f \<in> set (re_findall rt QuotedPath message) \<union> set (re_findall rt UnquotedPath message).
                path_like f})"
proof -
  define fs where "fs = filter path_like (re_findall rt QuotedPath message @ re_findall rt UnquotedPath message)"
  define S where "S = {f \<in> set (re_findall rt QuotedPath message) \<union> set (re_findall rt UnquotedPath message). path_like f}"
  have e: "extract_files_touched rt message = take 10 (set_iter rt fs)"
    by (simp add: extract_files_touched_def collect_matches_eq patterns_def fs_def)
  have d: "distinct (set_iter rt fs)" and s: "set (set_iter rt fs) = S"
    using assms by (auto simp: set_semantics_def fs_def S_def)
  have 1: "length (extract_files_touched rt message) \<le> 10" by (simp add: e)
  have 2: "distinct (extract_files_touched rt message)" using d by (simp add: e)
  have 3: "set (extract_files_touched rt message) \<subseteq> S"
    using s set_take_subset [of 10 "set_iter rt fs"] by (simp add: e)
  have 4: "card S \<le> 10 \<longrightarrow> set (extract_files_touched rt message) = S"
  proof
    assume "card S \<le> 10"
    then have "length (set_iter rt fs) \<le> 10"
      using d s distinct_card [of "set_iter rt fs"] by simp
    then show "set (extract_files_touched rt message) = S"
      using s by (simp add: e)
  qed
  from 1 2 3 4 show ?thesis unfolding S_def by blast
qed

theorem extract_files_touched_capped_witness:
  "set_semantics (set_iter demo_rt)
   \<and> length (extract_files_touched demo_rt twelve_files) = 10
   \<and> distinct (extract_files_touched demo_rt twelve_files)
   \<and> card {f \<in> set (re_findall demo_rt QuotedPath ''Edit main.py and then main.py again'')
              \<union> set (re_findall demo_rt UnquotedPath ''Edit main.py and then main.py again'').
            path_like f} \<le> 10
   \<and> extract_files_touched demo_rt ''Edit main.py and then main.py again'' = [''main.py'']"
proof -
  have h: "set_semantics (set_iter demo_rt)"
    by (simp add: demo_rt_def set_semantics_remdups)
  have a: "length (extract_files_touched demo_rt twelve_files) = 10"
    by code_simp
  have b: "extract_files_touched demo_rt ''Edit main.py and then main.py again'' = [''main.py'']"
    by code_simp
  have c: "{f \<in> set (re_findall demo_rt QuotedPath ''Edit main.py and then main.py again'')
              \<union> set (re_findall demo_rt UnquotedPath ''Edit main.py and then main.py again'').
            path_like f} = {''main.py''}"
    by (auto simp: demo_rt_def demo_findall_def path_like_def)
  show ?thesis
    using extract_files_touched_capped [OF h, of twelve_files]
          extract_files_touched_capped [OF h, of "''Edit main.py and then main.py again''"] h a b c
    by simp
qed

text \<open>
  The order is indeed open: two ways of iterating a set, both admissible, give the same
  entries in different orders.
\<close>

lemma order_is_open:
  "set_semantics remdups \<and> set_semantics (rev \<circ> remdups)
   \<and> extract_files_touched (demo_rt\<lparr>set_iter := remdups\<rparr>) ''fix a.py b.py'' = [''a.py'', ''b.py'']
   \<and> extract_files_touched (demo_rt\<lparr>set_iter := rev \<circ> remdups\<rparr>) ''fix a.py b.py'' = [''b.py'', ''a.py'']"
  by (simp add: set_semantics_def extract_files_touched_def demo_rt_def demo_findall_def patterns_def path_like_def)

section \<open>The checkpoint\<close>

lemma quiet_no_io:
  "list_all (\<lambda>a. \<not> is_io a) xs \<Longrightarrow> reads_of p xs = [] \<and> commits_of p xs = []"
  by (induction xs rule: reads_of.induct) auto

text \<open>
  Claim C1, as the code has it. When the size of the file is smaller than its
  recorded checkpoint, the pass returns at the guard \<^verbatim>\<open>file_size <= current_pos\<close>: the
  tracker is left as it was, so the checkpoint is kept (not reset to 0), no byte range
  is read (no read of negative length either) and no event is produced.
\<close>

theorem process_file_truncated_skips:
  assumes "length content < positions_get st p"
  shows "process_file rt p proj (Some content) st = (None, st)
       \<and> positions_get (snd (process_file rt p proj (Some content) st)) p = positions_get st p
       \<and> new_actions st (snd (process_file rt p proj (Some content) st)) = []"
  using assms by (simp add: process_file_skip new_actions_def)

theorem process_file_truncated_skips_witness:
  "length user_line_1 < positions_get (SessionTracker_init []\<lparr>positions := [''s.jsonl'' \<mapsto> 100]\<rparr>) ''s.jsonl''
   \<and> fst (process_file demo_rt ''s.jsonl'' ''proj'' (Some user_line_1)
        (SessionTracker_init []\<lparr>positions := [''s.jsonl'' \<mapsto> 100]\<rparr>)) = None
   \<and> trace (snd (process_file demo_rt ''s.jsonl'' ''proj'' (Some user_line_1)
        (SessionTracker_init []\<lparr>positions := [''s.jsonl'' \<mapsto> 100]\<rparr>))) = []"
proof -
  have h: "length user_line_1 < positions_get (SessionTracker_init []\<lparr>positions := [''s.jsonl'' \<mapsto> 100]\<rparr>) ''s.jsonl''"
    by (simp add: user_line_1_def positions_get_def SessionTracker_init_def)
  show ?thesis
    using process_file_truncated_skips [OF h, of demo_rt "''proj''"] h
    by (simp add: SessionTracker_init_def)
qed

text \<open>
  The claim as stated fails: with the checkpoint at 100 and a file of 44 bytes, the
  checkpoint is still 100 after the pass and the range \<open>(0, 44)\<close> has not been read.
\<close>

theorem truncated_file_not_reset_counterexample:
  "length user_line_1 < positions_get (SessionTracker_init []\<lparr>positions := [''s.jsonl'' \<mapsto> 100]\<rparr>) ''s.jsonl''
   \<and> positions_get (snd (process_file demo_rt ''s.jsonl'' ''proj'' (Some user_line_1)
        (SessionTracker_init []\<lparr>positions := [''s.jsonl'' \<mapsto> 100]\<rparr>))) ''s.jsonl'' = 100
   \<and> reads_of ''s.jsonl'' (trace (snd (process_file demo_rt ''s.jsonl'' ''proj'' (Some user_line_1)
        (SessionTracker_init []\<lparr>positions := [''s.jsonl'' \<mapsto> 100]\<rparr>)))) \<noteq> [(0, length user_line_1)]"
  by (simp add: user_line_1_def positions_get_def SessionTracker_init_def process_file_def)

text \<open>
  When the unseen bytes are not UTF-8 the read raises, and the pass ends there with
  the tracker as it was: nothing is stored, and the next pass meets the same bytes.
\<close>

lemma undecodable_log_raises:
  "process_file demo_rt ''s.jsonl'' ''proj'' (Some undecodable_log) (SessionTracker_init [])
     = (Some UnicodeDecodeError, SessionTracker_init [])"
proof -
  have "positions_get (SessionTracker_init []) ''s.jsonl'' < length undecodable_log"
    by code_simp
  moreover have "decode demo_rt (drop (positions_get (SessionTracker_init []) ''s.jsonl'')
                   undecodable_log) = None"
    by code_simp
  ultimately show ?thesis by (rule process_file_undecodable)
qed

text \<open>
  Claim C3, as the code has it. A pass over a file that has unseen bytes, when the read
  of them completes (they decode), stores the end of what it read as the checkpoint
  and only then handles the records: the two first effects of the pass are the read
  and the store, this store is the only one of the pass, and nothing that follows reads
  or stores. This holds whether the handling of the records returns or raises (\<open>r\<close> is
  any outcome); the same tracker, run again on the same file, then returns at once and
  reads nothing.
\<close>

theorem process_file_commits_before_records:
  assumes "positions_get st p < length content"
    and "decode rt (drop (positions_get st p) content) = Some unseen"
    and "process_file rt p proj (Some content) st = (r, st')"
  shows "take 2 (new_actions st st')
           = [Read p (positions_get st p) (length content), Commit p (length content)]
       \<and> list_all (\<lambda>a. \<not> is_io a) (drop 2 (new_actions st st'))
       \<and> commits_of p (new_actions st st') = [length content]
       \<and> positions st' p = Some (length content)
       \<and> process_file rt' p proj' (Some content) st' = (None, st')"
proof -
  from process_file_read [OF assms] obtain rest where
    pos: "positions st' = (positions st)(p \<mapsto> length content)" and
    tr: "trace st' = trace st @ Read p (positions_get st p) (length content)
                        # Commit p (length content) # rest" and
    q: "list_all (\<lambda>a. \<not> is_io a) rest"
    by blast
  have na: "new_actions st st' = Read p (positions_get st p) (length content)
                        # Commit p (length content) # rest"
    by (simp add: new_actions_def tr)
  have c: "commits_of p (new_actions st st') = [length content]"
    using quiet_no_io [OF q, of p] by (simp add: na)
  have g: "positions_get st' p = length content"
    by (simp add: positions_get_def pos)
  have s: "process_file rt' p proj' (Some content) st' = (None, st')"
    by (rule process_file_skip) (simp add: g)
  show ?thesis using q c s by (simp add: na pos)
qed

theorem process_file_commits_before_records_witness:
  "positions_get (SessionTracker_init []) ''s.jsonl'' < length crashing_log
   \<and> decode demo_rt (drop (positions_get (SessionTracker_init []) ''s.jsonl'') crashing_log)
       = Some crashing_log
   \<and> fst (process_file demo_rt ''s.jsonl'' ''proj'' (Some crashing_log) (SessionTracker_init []))
       = Some AttributeError
   \<and> commits_of ''s.jsonl'' (trace (snd (process_file demo_rt ''s.jsonl'' ''proj'' (Some crashing_log) (SessionTracker_init []))))
       = [48]
   \<and> positions (snd (process_file demo_rt ''s.jsonl'' ''proj'' (Some crashing_log) (SessionTracker_init []))) ''s.jsonl''
       = Some 48
   \<and> process_file demo_rt ''s.jsonl'' ''proj'' (Some crashing_log)
        (snd (process_file demo_rt ''s.jsonl'' ''proj'' (Some crashing_log) (SessionTracker_init [])))
       = (None, snd (process_file demo_rt ''s.jsonl'' ''proj'' (Some crashing_log) (SessionTracker_init [])))"
proof -
  have h: "positions_get (SessionTracker_init []) ''s.jsonl'' < length crashing_log"
    by code_simp
  have d: "decode demo_rt (drop (positions_get (SessionTracker_init []) ''s.jsonl'') crashing_log)
       = Some crashing_log"
    by code_simp
  have l: "length crashing_log = 48"
    by code_simp
  have f: "fst (process_file demo_rt ''s.jsonl'' ''proj'' (Some crashing_log) (SessionTracker_init []))
       = Some AttributeError"
    by code_simp
  have t: "trace (SessionTracker_init []) = []"
    by (simp add: SessionTracker_init_def)
  show ?thesis
    using process_file_commits_before_records [OF h d surjective_pairing, of "''proj''" demo_rt "''proj''"]
          h d l f t
    by (simp add: new_actions_def)
qed

text \<open>
  The checkpoint is an attribute of the tracker and is stored nowhere else, so the
  claim's consequence fails for a restart of the daemon: after a pass that raised while
  handling the second record, the new tracker reads the bytes \<open>(0, 48)\<close> again and sends
  the event of the first record a second time.
\<close>

theorem restart_rereads_counterexample:
  "fst (process_file demo_rt ''s.jsonl'' ''proj'' (Some crashing_log) (SessionTracker_init []))
       = Some AttributeError
   \<and> reads_of ''s.jsonl''
       (trace (snd (process_file demo_rt ''s.jsonl'' ''proj'' (Some crashing_log)
          (restart (snd (process_file demo_rt ''s.jsonl'' ''proj'' (Some crashing_log)
             (SessionTracker_init [])))))))
       = [(0, 48), (0, 48)]
   \<and> map intention (sends_of
       (trace (snd (process_file demo_rt ''s.jsonl'' ''proj'' (Some crashing_log)
          (restart (snd (process_file demo_rt ''s.jsonl'' ''proj'' (Some crashing_log)
             (SessionTracker_init []))))))))
       = [''fix'', ''fix'']"
  by code_simp

section \<open>Successive passes over one file\<close>










section \<open>Dispatch\<close>

lemma send_event_swallowed:
  "dispatch_outcome (net rt (length (trace st))) \<Longrightarrow>
     send_event rt ev st = (None, st\<lparr>trace := trace st @ [Send ev (net rt (length (trace st)))]\<rparr>)"
  by (auto simp: send_event_def dispatch_outcome_def Let_def split: send_outcome.splits)

lemma extract_files_touched_net [simp]:
  "extract_files_touched (rt\<lparr>net := f\<rparr>) m = extract_files_touched rt m"
proof -
  have "collect_matches (rt\<lparr>net := f\<rparr>) ps m files = collect_matches rt ps m files" for ps files
    by (induction ps arbitrary: files) auto
  then show ?thesis by (simp add: extract_files_touched_def)
qed

lemma same_but_outcomes_length: "same_but_outcomes s t \<Longrightarrow> length (trace s) = length (trace t)"
  by (auto simp: same_but_outcomes_def dest: map_eq_imp_length_eq)

lemma same_but_outcomes_refl: "same_but_outcomes s s"
  by (simp add: same_but_outcomes_def)

lemma same_but_outcomes_parse:
  "same_but_outcomes s t \<Longrightarrow>
     same_but_outcomes (s\<lparr>trace := trace s @ [Parse l]\<rparr>) (t\<lparr>trace := trace t @ [Parse l]\<rparr>)"
  by (simp add: same_but_outcomes_def)

lemma process_entry_sim:
  assumes "same_but_outcomes s t"
    and "\<forall>n. dispatch_outcome (net rt n)" and "\<forall>n. dispatch_outcome (f n)"
  shows "fst (process_entry rt e proj s) = fst (process_entry (rt\<lparr>net := f\<rparr>) e proj t)
       \<and> same_but_outcomes (snd (process_entry rt e proj s))
                           (snd (process_entry (rt\<lparr>net := f\<rparr>) e proj t))"
proof -
  have len: "length (trace s) = length (trace t)"
    using assms(1) by (rule same_but_outcomes_length)
  have a: "dispatch_outcome (net rt n)" for n using assms(2) by simp
  have b: "dispatch_outcome (net (rt\<lparr>net := f\<rparr>) n)" for n using assms(3) by simp
  show ?thesis
    using assms(1) len
    by (auto simp: process_entry_def Let_def send_event_swallowed [OF a] send_event_swallowed [OF b]
                   same_but_outcomes_def
             split: json.splits)
qed

lemma process_lines_sim:
  assumes "\<forall>n. dispatch_outcome (net rt n)" and "\<forall>n. dispatch_outcome (f n)"
  shows "same_but_outcomes s t \<Longrightarrow>
       fst (process_lines rt ls proj s) = fst (process_lines (rt\<lparr>net := f\<rparr>) ls proj t)
       \<and> same_but_outcomes (snd (process_lines rt ls proj s))
                           (snd (process_lines (rt\<lparr>net := f\<rparr>) ls proj t))"
proof (induction ls arbitrary: s t)
  case Nil
  then show ?case by simp
next
  case (Cons raw rest)
  let ?s1 = "s\<lparr>trace := trace s @ [Parse (strip raw)]\<rparr>"
  let ?t1 = "t\<lparr>trace := trace t @ [Parse (strip raw)]\<rparr>"
  have r1: "same_but_outcomes ?s1 ?t1"
    using Cons.prems by (rule same_but_outcomes_parse)
  show ?case
  proof (cases "strip raw = []")
    case True
    with Cons show ?thesis by simp
  next
    case False
    show ?thesis
    proof (cases "json_loads rt (strip raw)")
      case JSONDecodeError
      with False Cons.IH [OF r1] show ?thesis by (simp add: Let_def)
    next
      case (LoadsRaised e)
      with False r1 show ?thesis by (simp add: Let_def)
    next
      case (Loaded entry)
      obtain x s2 where ps: "process_entry rt entry proj ?s1 = (x, s2)"
        by (cases "process_entry rt entry proj ?s1")
      obtain y t2 where pt: "process_entry (rt\<lparr>net := f\<rparr>) entry proj ?t1 = (y, t2)"
        by (cases "process_entry (rt\<lparr>net := f\<rparr>) entry proj ?t1")
      from process_entry_sim [OF r1 assms, of entry proj] ps pt
      have xy: "x = y" and r2: "same_but_outcomes s2 t2" by auto
      show ?thesis
      proof (cases x)
        case None
        with False Loaded ps pt xy Cons.IH [OF r2] show ?thesis by (simp add: Let_def)
      next
        case (Some e)
        with False Loaded ps pt xy r2 show ?thesis
          by (auto simp: Let_def)
      qed
    qed
  qed
qed

lemma process_file_sim:
  assumes "\<forall>n. dispatch_outcome (net rt n)" and "\<forall>n. dispatch_outcome (f n)"
  shows "fst (process_file rt p proj file st) = fst (process_file (rt\<lparr>net := f\<rparr>) p proj file st)
       \<and> same_but_outcomes (snd (process_file rt p proj file st))
                           (snd (process_file (rt\<lparr>net := f\<rparr>) p proj file st))"
proof (cases "file")
  case None
  then show ?thesis by (simp add: process_file_def same_but_outcomes_refl)
next
  case (Some c)
  show ?thesis
  proof (cases "length c \<le> positions_get st p")
    case True
    with Some show ?thesis by (simp add: process_file_skip same_but_outcomes_refl)
  next
    case False
    let ?st2 = "st\<lparr>positions := (positions st)(p \<mapsto> length c),
               trace := trace st @ [Read p (positions_get st p) (length c), Commit p (length c)]\<rparr>"
    have "same_but_outcomes ?st2 ?st2" by (rule same_but_outcomes_refl)
    from process_lines_sim [OF assms this] False Some show ?thesis
      by (cases "decode rt (drop (positions_get st p) c)")
         (simp_all add: process_file_def Let_def same_but_outcomes_refl)
  qed
qed

lemma appends_of_append: "appends_of (xs @ ys) = appends_of xs @ appends_of ys"
  by (induction xs rule: appends_of.induct) auto

lemma sends_of_append: "sends_of (xs @ ys) = sends_of xs @ sends_of ys"
  by (induction xs rule: sends_of.induct) auto

lemma paired_step_refl: "paired_step st st"
  by (simp add: paired_step_def)

lemma paired_step_trans: "paired_step a b \<Longrightarrow> paired_step b c \<Longrightarrow> paired_step a c"
  unfolding paired_step_def
  by (elim exE conjE, rule_tac x = "N @ Na" in exI) (simp add: sends_of_append appends_of_append)

lemma paired_step_silent:
  "sends_of M = [] \<Longrightarrow> appends_of M = [] \<Longrightarrow>
   paired_step (st\<lparr>trace := trace st @ M\<rparr>) st' \<Longrightarrow> paired_step st st'"
  unfolding paired_step_def
  by (elim exE conjE, rule_tac x = "M @ N" in exI) (simp add: sends_of_append appends_of_append)

lemma process_entry_paired: "process_entry rt entry proj st = (r, st') \<Longrightarrow> paired_step st st'"
  by (auto simp: process_entry_def Let_def paired_step_refl
           split: json.splits if_splits dest!: send_event_result)
     (auto simp: paired_step_def)

lemma process_lines_paired: "process_lines rt ls proj st = (r, st') \<Longrightarrow> paired_step st st'"
proof (induction ls arbitrary: st)
  case Nil
  then show ?case by (simp add: paired_step_refl)
next
  case (Cons raw rest)
  show ?case
  proof (cases "strip raw = []")
    case True
    with Cons show ?thesis by simp
  next
    case False
    let ?st1 = "st\<lparr>trace := trace st @ [Parse (strip raw)]\<rparr>"
    have sil: "paired_step ?st1 st' \<Longrightarrow> paired_step st st'"
      by (rule paired_step_silent [of "[Parse (strip raw)]"]) simp_all
    show ?thesis
    proof (cases "json_loads rt (strip raw)")
      case JSONDecodeError
      with False Cons.prems have "process_lines rt rest proj ?st1 = (r, st')"
        by (simp add: Let_def)
      then have "paired_step ?st1 st'" by (rule Cons.IH)
      then show ?thesis by (rule sil)
    next
      case (LoadsRaised e)
      with False Cons.prems have "st' = ?st1" by (simp add: Let_def)
      then have "paired_step ?st1 st'" by (simp add: paired_step_refl)
      then show ?thesis by (rule sil)
    next
      case (Loaded entry)
      obtain r2 st2 where pe: "process_entry rt entry proj ?st1 = (r2, st2)"
        by (cases "process_entry rt entry proj ?st1")
      have q12: "paired_step ?st1 st2" using pe by (rule process_entry_paired)
      show ?thesis
      proof (cases r2)
        case None
        with False Loaded pe Cons.prems have "process_lines rt rest proj st2 = (r, st')"
          by (simp add: Let_def)
        then have "paired_step st2 st'" by (rule Cons.IH)
        with q12 have "paired_step ?st1 st'" by (rule paired_step_trans)
        then show ?thesis by (rule sil)
      next
        case (Some e)
        with False Loaded pe Cons.prems have "st' = st2"
          by (simp add: Let_def)
        with q12 have "paired_step ?st1 st'" by simp
        then show ?thesis by (rule sil)
      qed
    qed
  qed
qed

lemma process_file_paired: "process_file rt p proj file st = (r, st') \<Longrightarrow> paired_step st st'"
proof (cases "file")
  case None
  assume "process_file rt p proj file st = (r, st')"
  with None show ?thesis by (simp add: process_file_def paired_step_refl)
next
  case (Some c)
  assume pf: "process_file rt p proj file st = (r, st')"
  show ?thesis
  proof (cases "length c \<le> positions_get st p")
    case True
    with Some pf show ?thesis by (simp add: process_file_skip paired_step_refl)
  next
    case False
    let ?M = "[Read p (positions_get st p) (length c), Commit p (length c)]"
    let ?st2 = "st\<lparr>positions := (positions st)(p \<mapsto> length c), trace := trace st @ ?M\<rparr>"
    show ?thesis
    proof (cases "decode rt (drop (positions_get st p) c)")
      case None
      with False \<open>file = Some c\<close> pf have "st' = st" by (simp add: process_file_def)
      then show ?thesis by (simp add: paired_step_refl)
    next
      case (Some unseen)
      with False \<open>file = Some c\<close> pf
      have "process_lines rt (readlines unseen) proj ?st2 = (r, st')"
        by (simp add: process_file_def Let_def)
      then have "paired_step ?st2 st'" by (rule process_lines_paired)
      then show ?thesis
        unfolding paired_step_def
        by (elim exE conjE, rule_tac x = "?M @ N" in exI) (simp add: sends_of_append appends_of_append)
    qed
  qed
qed

text \<open>
  Claim C5. Let every request end in a response (of any status), in a missing
  \<^verbatim>\<open>httpx\<close>, or in an exception derived from \<^verbatim>\<open>Exception\<close>, such as a time-out or a
  connection error. Then \<^verbatim>\<open>_send_event\<close> returns normally, having made one attempt and
  changed nothing in the tracker; a pass over a file returns or raises exactly as it
  does when every request succeeds, with the same checkpoints, the same events and the
  same effects in the same order; and every event is handed to \<^verbatim>\<open>_send_event\<close> once
  and is not sent again.
\<close>

theorem dispatch_failures_swallowed:
  assumes "\<forall>n. dispatch_outcome (net rt n)"
  shows "send_event rt ev st
           = (None, st\<lparr>trace := trace st @ [Send ev (net rt (length (trace st)))]\<rparr>)
       \<and> fst (process_file rt p proj snap st)
           = fst (process_file (rt\<lparr>net := \<lambda>n. Responded 200\<rparr>) p proj snap st)
       \<and> same_but_outcomes (snd (process_file rt p proj snap st))
            (snd (process_file (rt\<lparr>net := \<lambda>n. Responded 200\<rparr>) p proj snap st))
       \<and> sends_of (new_actions st (snd (process_file rt p proj snap st)))
           = appends_of (new_actions st (snd (process_file rt p proj snap st)))"
proof -
  have a: "dispatch_outcome (net rt (length (trace st)))" using assms by simp
  have b: "\<forall>n. dispatch_outcome ((\<lambda>n. Responded 200) n)" by (simp add: dispatch_outcome_def)
  have "paired_step st (snd (process_file rt p proj snap st))"
    by (rule process_file_paired [OF surjective_pairing])
  then have c: "sends_of (new_actions st (snd (process_file rt p proj snap st)))
           = appends_of (new_actions st (snd (process_file rt p proj snap st)))"
    by (auto simp: paired_step_def new_actions_def)
  from send_event_swallowed [OF a] process_file_sim [OF assms b] c show ?thesis by simp
qed

theorem dispatch_failures_swallowed_witness:
  "(\<forall>n. dispatch_outcome (net demo_rt n))
   \<and> net demo_rt 4 = Raised TimeoutException \<and> net demo_rt 7 = Responded 500
   \<and> fst (process_file demo_rt ''s.jsonl'' ''proj'' (Some five_line_log) (SessionTracker_init [])) = None
   \<and> length (session_events (snd (process_file demo_rt ''s.jsonl'' ''proj'' (Some five_line_log) (SessionTracker_init [])))) = 4
   \<and> session_events (snd (process_file demo_rt ''s.jsonl'' ''proj'' (Some five_line_log) (SessionTracker_init [])))
     = session_events (snd (process_file (demo_rt\<lparr>net := \<lambda>n. Responded 200\<rparr>) ''s.jsonl'' ''proj'' (Some five_line_log) (SessionTracker_init [])))"
proof -
  have h: "\<forall>n. dispatch_outcome (net demo_rt n)"
    by (simp add: demo_rt_def dispatch_outcome_def)
  have n: "net demo_rt 4 = Raised TimeoutException \<and> net demo_rt 7 = Responded 500"
    by (simp add: demo_rt_def)
  have f: "fst (process_file demo_rt ''s.jsonl'' ''proj'' (Some five_line_log) (SessionTracker_init [])) = None"
    by code_simp
  have l: "length (session_events (snd (process_file demo_rt ''s.jsonl'' ''proj'' (Some five_line_log) (SessionTracker_init [])))) = 4"
    by code_simp
  show ?thesis
    using dispatch_failures_swallowed [OF h, where st = "SessionTracker_init []"
             and p = "''s.jsonl''" and proj = "''proj''" and snap = "Some five_line_log"]
          h n f l
    by (simp add: same_but_outcomes_def)
qed

section \<open>Events\<close>

lemma process_entry_user:
  assumes "dict_get members ''role'' (JStr []) = JStr ''user''"
    and "dict_get members ''content'' (JStr []) = JStr body"
    and "body \<noteq> []"
  shows "snd (process_entry rt (JObj members) proj st) =
           st\<lparr>session_events := session_events st @
                  [\<lparr>event_type = detect_intention body,
                    timestamp = clock rt (length (trace st)),
                    project = proj,
                    files_touched = extract_files_touched rt body,
                    intention = detect_intention body\<rparr>],
              trace := trace st @
                  [Append \<lparr>event_type = detect_intention body,
                    timestamp = clock rt (length (trace st)),
                    project = proj,
                    files_touched = extract_files_touched rt body,
                    intention = detect_intention body\<rparr>,
                   Send \<lparr>event_type = detect_intention body,
                    timestamp = clock rt (length (trace st)),
                    project = proj,
                    files_touched = extract_files_touched rt body,
                    intention = detect_intention body\<rparr>
                    (net rt (Suc (length (trace st))))]\<rparr>"
  using assms
  by (auto simp: process_entry_def Let_def send_event_def split: send_outcome.splits)

lemma process_entry_user_returns:
  assumes "dict_get members ''role'' (JStr []) = JStr ''user''"
    and "dict_get members ''content'' (JStr []) = JStr body"
    and "body \<noteq> []"
    and "dispatch_outcome (net rt (Suc (length (trace st))))"
  shows "fst (process_entry rt (JObj members) proj st) = None"
  using assms
  by (auto simp: process_entry_def Let_def send_event_def dispatch_outcome_def split: send_outcome.splits)

text \<open>
  Claim C6. The event built from a record of a user has the five fields
  \<^verbatim>\<open>event_type\<close>, \<^verbatim>\<open>timestamp\<close>, \<^verbatim>\<open>project\<close>, \<^verbatim>\<open>files_touched\<close> and \<^verbatim>\<open>intention\<close>, and
  takes from the body of the record nothing but its intent tag and its file tokens:
  for two records whose bodies give the same tag and the same tokens, under the same
  project, the event appended and sent for the second is the one written with the
  values of the first, the time stamp apart.
\<close>

theorem event_from_derived_values_only:
  assumes "dict_get m1 ''role'' (JStr []) = JStr ''user''"
    and "dict_get m1 ''content'' (JStr []) = JStr b1" and "b1 \<noteq> []"
    and "dict_get m2 ''role'' (JStr []) = JStr ''user''"
    and "dict_get m2 ''content'' (JStr []) = JStr b2" and "b2 \<noteq> []"
    and "detect_intention b1 = detect_intention b2"
    and "extract_files_touched rt b1 = extract_files_touched rt b2"
  shows "session_events (snd (process_entry rt (JObj m1) proj sa)) =
           session_events sa @
             [\<lparr>event_type = detect_intention b1, timestamp = clock rt (length (trace sa)),
               project = proj, files_touched = extract_files_touched rt b1,
               intention = detect_intention b1\<rparr>]
       \<and> sends_of (new_actions sa (snd (process_entry rt (JObj m1) proj sa))) =
             [\<lparr>event_type = detect_intention b1, timestamp = clock rt (length (trace sa)),
               project = proj, files_touched = extract_files_touched rt b1,
               intention = detect_intention b1\<rparr>]
       \<and> session_events (snd (process_entry rt (JObj m2) proj sb)) =
           session_events sb @
             [\<lparr>event_type = detect_intention b1, timestamp = clock rt (length (trace sb)),
               project = proj, files_touched = extract_files_touched rt b1,
               intention = detect_intention b1\<rparr>]
       \<and> sends_of (new_actions sb (snd (process_entry rt (JObj m2) proj sb))) =
             [\<lparr>event_type = detect_intention b1, timestamp = clock rt (length (trace sb)),
               project = proj, files_touched = extract_files_touched rt b1,
               intention = detect_intention b1\<rparr>]"
  using assms(7,8)
  by (simp add: process_entry_user [OF assms(1,2,3)] process_entry_user [OF assms(4,5,6)]
        new_actions_def)

theorem event_from_derived_values_only_witness:
  "detect_intention ''fix a.py b.py'' = detect_intention ''please fix a.py  b.py''
   \<and> extract_files_touched demo_rt ''fix a.py b.py''
       = extract_files_touched demo_rt ''please fix a.py  b.py''
   \<and> ''fix a.py b.py'' \<noteq> ''please fix a.py  b.py''
   \<and> session_events (snd (process_entry demo_rt
         (JObj [(''role'', JStr ''user''), (''content'', JStr ''fix a.py b.py'')])
         ''proj'' (SessionTracker_init []))) =
       [\<lparr>event_type = ''fix'', timestamp = ''2026-01-01T00:00:'', project = ''proj'',
         files_touched = [''a.py'', ''b.py''], intention = ''fix''\<rparr>]
   \<and> session_events (snd (process_entry demo_rt
         (JObj [(''role'', JStr ''user''), (''content'', JStr ''please fix a.py  b.py'')])
         ''proj'' (SessionTracker_init []))) =
       [\<lparr>event_type = ''fix'', timestamp = ''2026-01-01T00:00:'', project = ''proj'',
         files_touched = [''a.py'', ''b.py''], intention = ''fix''\<rparr>]"
proof -
  let ?m1 = "[(''role'', JStr ''user''), (''content'', JStr ''fix a.py b.py'')]"
  let ?m2 = "[(''role'', JStr ''user''), (''content'', JStr ''please fix a.py  b.py'')]"
  have r1: "dict_get ?m1 ''role'' (JStr []) = JStr ''user''" by (simp add: dict_get_def)
  have c1: "dict_get ?m1 ''content'' (JStr []) = JStr ''fix a.py b.py''" by (simp add: dict_get_def)
  have n1: "''fix a.py b.py'' \<noteq> []" by simp
  have r2: "dict_get ?m2 ''role'' (JStr []) = JStr ''user''" by (simp add: dict_get_def)
  have c2: "dict_get ?m2 ''content'' (JStr []) = JStr ''please fix a.py  b.py''" by (simp add: dict_get_def)
  have n2: "''please fix a.py  b.py'' \<noteq> []" by simp
  have d1: "detect_intention ''fix a.py b.py'' = ''fix''" by code_simp
  have d2: "detect_intention ''please fix a.py  b.py'' = ''fix''" by code_simp
  have e1: "extract_files_touched demo_rt ''fix a.py b.py'' = [''a.py'', ''b.py'']" by code_simp
  have e2: "extract_files_touched demo_rt ''please fix a.py  b.py'' = [''a.py'', ''b.py'']" by code_simp
  have d: "detect_intention ''fix a.py b.py'' = detect_intention ''please fix a.py  b.py''"
    by (simp add: d1 d2)
  have e: "extract_files_touched demo_rt ''fix a.py b.py''
       = extract_files_touched demo_rt ''please fix a.py  b.py''"
    by (simp add: e1 e2)
  have k: "clock demo_rt 0 = ''2026-01-01T00:00:''" by (simp add: demo_rt_def)
  have t: "trace (SessionTracker_init []) = []" "session_events (SessionTracker_init []) = []"
    by (simp_all add: SessionTracker_init_def)
  show ?thesis
    using event_from_derived_values_only [OF r1 c1 n1 r2 c2 n2 d e,
            where sa = "SessionTracker_init []" and sb = "SessionTracker_init []"
              and proj = "''proj''"]
          d e d1 e1 k t
    by simp
qed

section \<open>Malformed lines\<close>

lemma readlines_Nil: "readlines [] = []"
  by (simp add: readlines_def)

lemma process_lines_counts:
  assumes "\<forall>n. dispatch_outcome (net rt n)"
  shows "list_all (\<lambda>l. strip l = [] \<or> malformed rt l \<or> user_record rt l) ls \<Longrightarrow>
       fst (process_lines rt ls proj st) = None
       \<and> positions (snd (process_lines rt ls proj st)) = positions st
       \<and> length (session_events (snd (process_lines rt ls proj st)))
           = length (session_events st) + length (filter (user_record rt) ls)"
proof (induction ls arbitrary: st)
  case Nil
  then show ?case by simp
next
  case (Cons raw rest)
  then have rest: "list_all (\<lambda>l. strip l = [] \<or> malformed rt l \<or> user_record rt l) rest"
    by simp
  note IH = Cons.IH [OF rest]
  let ?st1 = "st\<lparr>trace := trace st @ [Parse (strip raw)]\<rparr>"
  consider (blank) "strip raw = []" | (bad) "strip raw \<noteq> []" "malformed rt raw"
    | (user) "strip raw \<noteq> []" "user_record rt raw"
    using Cons.prems by auto
  then show ?case
  proof cases
    case blank
    then have "\<not> user_record rt raw" by (simp add: user_record_def)
    with blank IH [of st] show ?thesis by simp
  next
    case bad
    then have n: "json_loads rt (strip raw) = JSONDecodeError" by (simp add: malformed_def)
    then have "\<not> user_record rt raw" by (simp add: user_record_def)
    with bad n IH [of ?st1] show ?thesis by (simp add: Let_def)
  next
    case user
    then obtain members body where
      j: "json_loads rt (strip raw) = Loaded (JObj members)" and
      r: "dict_get members ''role'' (JStr []) = JStr ''user''" and
      c: "dict_get members ''content'' (JStr []) = JStr body" and
      b: "body \<noteq> []"
      by (auto simp: user_record_def split: loads_result.splits json.splits)
    have d: "dispatch_outcome (net rt (Suc (length (trace ?st1))))" using assms by simp
    obtain x st2 where pe: "process_entry rt (JObj members) proj ?st1 = (x, st2)"
      by (cases "process_entry rt (JObj members) proj ?st1")
    from process_entry_user_returns [OF r c b d, of proj] pe have x: "x = None" by simp
    from process_entry_user [OF r c b, of rt proj ?st1] pe
    have s2: "positions st2 = positions st"
      "length (session_events st2) = Suc (length (session_events st))"
      by simp_all
    from user j pe x IH [of st2] s2 show ?thesis by (simp add: Let_def)
  qed
qed

text \<open>
  Claim C8, as the code has it. A line on which \<^verbatim>\<open>json.loads\<close> raises
  \<^verbatim>\<open>JSONDecodeError\<close> is skipped and the lines after it are handled: when the unseen
  bytes of a file decode to three valid records of a user, then such a malformed line,
  then one more valid record of a user, and no request is cancelled, the pass returns
  normally with exactly four more events, and the checkpoint of the file is its size,
  past all five lines.
\<close>

theorem malformed_line_skipped:
  assumes "\<forall>n. dispatch_outcome (net rt n)"
    and "positions_get st p < length content"
    and "decode rt (drop (positions_get st p) content) = Some unseen"
    and "readlines unseen = [l1, l2, l3, bad, l5]"
    and "user_record rt l1" and "user_record rt l2" and "user_record rt l3"
    and "malformed rt bad" and "user_record rt l5"
  shows "fst (process_file rt p proj (Some content) st) = None
       \<and> length (session_events (snd (process_file rt p proj (Some content) st)))
           = length (session_events st) + 4
       \<and> positions (snd (process_file rt p proj (Some content) st)) p = Some (length content)"
proof -
  have lt: "\<not> length content \<le> positions_get st p"
    using assms(2) by simp
  have nb: "\<not> user_record rt bad"
    using assms(8) by (simp add: malformed_def user_record_def)
  have all: "list_all (\<lambda>l. strip l = [] \<or> malformed rt l \<or> user_record rt l) [l1, l2, l3, bad, l5]"
    using assms(5-9) by simp
  let ?st2 = "st\<lparr>positions := (positions st)(p \<mapsto> length content),
               trace := trace st @ [Read p (positions_get st p) (length content),
                                    Commit p (length content)]\<rparr>"
  have pf: "process_file rt p proj (Some content) st = process_lines rt [l1, l2, l3, bad, l5] proj ?st2"
    using lt assms(3,4) by (simp add: process_file_def Let_def)
  from process_lines_counts [OF assms(1) all, of proj ?st2] assms(5,6,7,9) nb
  show ?thesis unfolding pf by simp
qed

theorem malformed_line_skipped_witness:
  "(\<forall>n. dispatch_outcome (net demo_rt n))
   \<and> positions_get (SessionTracker_init []) ''s.jsonl'' < length five_line_log
   \<and> decode demo_rt (drop (positions_get (SessionTracker_init []) ''s.jsonl'') five_line_log)
       = Some five_line_log
   \<and> readlines five_line_log
       = [user_line_1 @ ''\<newline>'', user_line_2 @ ''\<newline>'', user_line_1 @ ''\<newline>'',
          ''{oops\<newline>'', user_line_2 @ ''\<newline>'']
   \<and> user_record demo_rt (user_line_1 @ ''\<newline>'') \<and> user_record demo_rt (user_line_2 @ ''\<newline>'')
   \<and> malformed demo_rt ''{oops\<newline>''
   \<and> fst (process_file demo_rt ''s.jsonl'' ''proj'' (Some five_line_log) (SessionTracker_init [])) = None
   \<and> length (session_events (snd (process_file demo_rt ''s.jsonl'' ''proj'' (Some five_line_log) (SessionTracker_init [])))) = 4
   \<and> positions (snd (process_file demo_rt ''s.jsonl'' ''proj'' (Some five_line_log) (SessionTracker_init []))) ''s.jsonl''
       = Some 202"
proof -
  have h: "\<forall>n. dispatch_outcome (net demo_rt n)"
    by (simp add: demo_rt_def dispatch_outcome_def)
  have lt: "positions_get (SessionTracker_init []) ''s.jsonl'' < length five_line_log"
    by code_simp
  have dc: "decode demo_rt (drop (positions_get (SessionTracker_init []) ''s.jsonl'') five_line_log)
       = Some five_line_log"
    by code_simp
  have rl: "readlines five_line_log
       = [user_line_1 @ ''\<newline>'', user_line_2 @ ''\<newline>'', user_line_1 @ ''\<newline>'',
          ''{oops\<newline>'', user_line_2 @ ''\<newline>'']"
    by code_simp
  have u1: "user_record demo_rt (user_line_1 @ ''\<newline>'')" by code_simp
  have u2: "user_record demo_rt (user_line_2 @ ''\<newline>'')" by code_simp
  have m: "malformed demo_rt ''{oops\<newline>''" by code_simp
  have l: "length five_line_log = 202" by code_simp
  have s: "session_events (SessionTracker_init []) = []" by (simp add: SessionTracker_init_def)
  show ?thesis
    using malformed_line_skipped [OF h lt dc rl u1 u2 u1 m u2, of "''proj''"] h lt dc rl u1 u2 m l s
    by simp
qed

text \<open>
  A line on which \<^verbatim>\<open>json.loads\<close> raises anything else is not skipped: the exception
  leaves the pass, with the checkpoint already stored, and the lines after it are never
  handled.
\<close>

lemma demo_decode_ascii:
  "list_all (\<lambda>b. (of_char b :: nat) < 128) bs \<Longrightarrow> demo_decode bs = Some bs"
  by (induction bs rule: demo_decode.induct) (auto simp: Let_def)

lemma split_lines_line:
  "list_all (\<lambda>c. c \<noteq> CHR 0x0A \<and> c \<noteq> CHR 0x0D) xs \<Longrightarrow>
     split_lines cur (xs @ CHR 0x0A # rest) = (cur @ xs @ [CHR 0x0A]) # split_lines [] rest"
proof (induction xs arbitrary: cur)
  case Nil
  then show ?case by (cases rest) simp_all
next
  case (Cons a xs)
  then have a: "a \<noteq> CHR 0x0A" "a \<noteq> CHR 0x0D" and
    xs: "list_all (\<lambda>c. c \<noteq> CHR 0x0A \<and> c \<noteq> CHR 0x0D) xs" by simp_all
  obtain d ds where e: "xs @ CHR 0x0A # rest = d # ds" by (cases "xs @ CHR 0x0A # rest") auto
  have "split_lines cur ((a # xs) @ CHR 0x0A # rest) = split_lines (cur @ [a]) (xs @ CHR 0x0A # rest)"
    using a by (simp add: e)
  also have "\<dots> = ((cur @ [a]) @ xs @ [CHR 0x0A]) # split_lines [] rest"
    by (rule Cons.IH [OF xs])
  finally show ?case by simp
qed

lemma strip_replicate_line:
  "\<not> is_space c \<Longrightarrow> 0 < n \<Longrightarrow> strip (replicate n c @ [CHR 0x0A]) = replicate n c"
proof -
  assume c: "\<not> is_space c" and n: "0 < n"
  then obtain k where k: "n = Suc k" by (cases n) auto
  have nl: "is_space (CHR 0x0A)" by (simp add: is_space_def)
  have 1: "dropWhile is_space (replicate n c @ [CHR 0x0A]) = replicate n c @ [CHR 0x0A]"
    using c by (simp add: k)
  have 2: "rev (replicate n c @ [CHR 0x0A]) = CHR 0x0A # replicate n c"
    by simp
  have 3: "dropWhile is_space (CHR 0x0A # replicate n c) = replicate n c"
    using c nl by (simp add: k)
  show ?thesis by (simp only: strip_def 1 2 3 rev_replicate)
qed

lemma process_lines_append:
  "process_lines rt (xs @ ys) proj st =
     (case process_lines rt xs proj st of
        (None, st1) \<Rightarrow> process_lines rt ys proj st1
      | (Some e, st1) \<Rightarrow> (Some e, st1))"
  by (induction xs arbitrary: st)
     (auto simp: Let_def split: loads_result.splits option.splits prod.splits)

lemma process_file_loads_raises:
  assumes "\<forall>n. dispatch_outcome (net rt n)"
    and "positions_get st p < length content"
    and "decode rt (drop (positions_get st p) content) = Some unseen"
    and "readlines unseen = before @ bad # later"
    and "list_all (\<lambda>l. strip l = [] \<or> malformed rt l \<or> user_record rt l) before"
    and "strip bad \<noteq> []"
    and "json_loads rt (strip bad) = LoadsRaised e"
  shows "fst (process_file rt p proj (Some content) st) = Some e
       \<and> length (session_events (snd (process_file rt p proj (Some content) st)))
           = length (session_events st) + length (filter (user_record rt) before)
       \<and> positions (snd (process_file rt p proj (Some content) st)) p = Some (length content)"
proof -
  let ?st2 = "st\<lparr>positions := (positions st)(p \<mapsto> length content),
               trace := trace st @ [Read p (positions_get st p) (length content),
                                    Commit p (length content)]\<rparr>"
  have pf: "process_file rt p proj (Some content) st
              = process_lines rt (before @ bad # later) proj ?st2"
    using assms(2,3,4) by (simp add: process_file_def Let_def)
  obtain x st3 where b: "process_lines rt before proj ?st2 = (x, st3)"
    by (cases "process_lines rt before proj ?st2")
  from process_lines_counts [OF assms(1) assms(5), of proj ?st2] b
  have x: "x = None" and pos: "positions st3 = positions ?st2" and
    len: "length (session_events st3) = length (session_events st) + length (filter (user_record rt) before)"
    by simp_all
  have "process_lines rt (before @ bad # later) proj ?st2
          = (Some e, st3\<lparr>trace := trace st3 @ [Parse (strip bad)]\<rparr>)"
    using b x assms(6,7) by (simp add: process_lines_append Let_def)
  with pf pos len show ?thesis by simp
qed

text \<open>
  So the claim as stated fails on a malformed line of another kind: in a log of three
  valid records, a line of 100000 opening brackets and one more valid record, the line
  fails to parse with \<^verbatim>\<open>RecursionError\<close>, the pass raises it, and there are three
  events, not four.
\<close>

theorem deep_line_aborts_counterexample:
  "strip (deep_line @ ''\<newline>'') \<noteq> []
   \<and> json_loads demo_rt (strip (deep_line @ ''\<newline>'')) = LoadsRaised RecursionError
   \<and> readlines deep_log
       = [user_line_1 @ ''\<newline>'', user_line_2 @ ''\<newline>'', user_line_1 @ ''\<newline>'',
          deep_line @ ''\<newline>'', user_line_2 @ ''\<newline>'']
   \<and> fst (process_file demo_rt ''s.jsonl'' ''proj'' (Some deep_log) (SessionTracker_init []))
       = Some RecursionError
   \<and> length (session_events (snd (process_file demo_rt ''s.jsonl'' ''proj'' (Some deep_log)
        (SessionTracker_init [])))) = 3"
proof -
  let ?nl = "CHR 0x0A"
  have sp: "\<not> is_space (CHR ''['')" by (simp add: is_space_def)
  have st: "strip (deep_line @ ''\<newline>'') = deep_line"
    unfolding deep_line_def using strip_replicate_line [OF sp, of 100000] by simp
  have ne: "deep_line \<noteq> []" by (simp add: deep_line_def)
  have len: "length deep_line = 100000" by (simp add: deep_line_def)
  have short: "deep_line \<noteq> x" if "length x < 100000" for x
    using that len by auto
  have neq: "deep_line \<noteq> user_line_1" "deep_line \<noteq> user_line_2" "deep_line \<noteq> assistant_line"
    "deep_line \<noteq> ''[]''"
    by (rule short, simp add: user_line_1_def user_line_2_def assistant_line_def)+
  have all: "list_all (\<lambda>c. c = CHR ''['') deep_line"
    by (simp add: deep_line_def list_all_iff)
  have jl: "json_loads demo_rt deep_line = LoadsRaised RecursionError"
    using neq all len by (simp add: demo_rt_def demo_loads_def)
  have nonl: "list_all (\<lambda>c. c \<noteq> ?nl \<and> c \<noteq> CHR 0x0D) user_line_1"
    "list_all (\<lambda>c. c \<noteq> ?nl \<and> c \<noteq> CHR 0x0D) user_line_2"
    "list_all (\<lambda>c. c \<noteq> ?nl \<and> c \<noteq> CHR 0x0D) deep_line"
    by (simp_all add: user_line_1_def user_line_2_def deep_line_def list_all_iff)
  have dl: "deep_log = user_line_1 @ ?nl # user_line_2 @ ?nl # user_line_1 @ ?nl
                 # deep_line @ ?nl # user_line_2 @ ?nl # []"
    by (simp add: deep_log_def)
  have rl: "readlines deep_log
       = [user_line_1 @ ''\<newline>'', user_line_2 @ ''\<newline>'', user_line_1 @ ''\<newline>'',
          deep_line @ ''\<newline>'', user_line_2 @ ''\<newline>'']"
    unfolding readlines_def dl by (simp add: split_lines_line nonl)
  have asc: "list_all (\<lambda>b. (of_char b :: nat) < 128) deep_log"
    by (simp add: deep_log_def deep_line_def user_line_1_def user_line_2_def list_all_iff)
  have dc: "decode demo_rt (drop (positions_get (SessionTracker_init []) ''s.jsonl'') deep_log)
              = Some deep_log"
    using demo_decode_ascii [OF asc]
    by (simp add: demo_rt_def positions_get_def SessionTracker_init_def)
  have lt: "positions_get (SessionTracker_init []) ''s.jsonl'' < length deep_log"
    by (simp add: positions_get_def SessionTracker_init_def deep_log_def)
  have h: "\<forall>n. dispatch_outcome (net demo_rt n)"
    by (simp add: demo_rt_def dispatch_outcome_def)
  have u1: "user_record demo_rt (user_line_1 @ ''\<newline>'')" by code_simp
  have u2: "user_record demo_rt (user_line_2 @ ''\<newline>'')" by code_simp
  have pre: "list_all (\<lambda>l. strip l = [] \<or> malformed demo_rt l \<or> user_record demo_rt l)
               [user_line_1 @ ''\<newline>'', user_line_2 @ ''\<newline>'', user_line_1 @ ''\<newline>'']"
    using u1 u2 by simp
  have rl': "readlines deep_log
       = [user_line_1 @ ''\<newline>'', user_line_2 @ ''\<newline>'', user_line_1 @ ''\<newline>'']
         @ (deep_line @ ''\<newline>'') # [user_line_2 @ ''\<newline>'']"
    using rl by simp
  have sb: "strip (deep_line @ ''\<newline>'') \<noteq> []" using st ne by simp
  have jb: "json_loads demo_rt (strip (deep_line @ ''\<newline>'')) = LoadsRaised RecursionError"
    using st jl by simp
  have s0: "session_events (SessionTracker_init []) = []" by (simp add: SessionTracker_init_def)
  from process_file_loads_raises [OF h lt dc rl' pre sb jb, of "''proj''"] u1 u2 s0 sb jb rl
  show ?thesis by simp
qed

end
